theory Spec2Isabelle
  imports Main "HOL-Library.Sublist"
begin

section \<open>JavaScript string primitives used by the formatter\<close>

text \<open>
  A JavaScript string is modelled as a \<open>string\<close>, one \<open>char\<close> per code unit (code units
  below 256). Indices and lengths are JavaScript numbers holding integers, modelled as
  \<open>int\<close>; the not-found sentinel of \<open>indexOf\<close> and of \<open>findClosingBracket\<close> is \<open>-1\<close>.
\<close>

text \<open>\<open>String.prototype.substring(start, end)\<close>: both arguments are clamped to
  \<open>[0, length]\<close> and swapped when \<open>start > end\<close>.\<close>

definition substring :: "string \<Rightarrow> int \<Rightarrow> int \<Rightarrow> string" where
  "substring s a b =
     (let len = int (length s);
          fa = min (max a 0) len;
          fb = min (max b 0) len;
          lo = min fa fb;
          hi = max fa fb
      in take (nat (hi - lo)) (drop (nat lo) s))"

text \<open>\<open>substring(start)\<close>: the end defaults to the length of the string.\<close>

definition substring_from :: "string \<Rightarrow> int \<Rightarrow> string" where
  "substring_from s a = substring s a (int (length s))"

text \<open>\<open>String.prototype.slice(start, end)\<close>: a negative argument counts from the end;
  the result is empty when the start is not before the end.\<close>

definition slice :: "string \<Rightarrow> int \<Rightarrow> int \<Rightarrow> string" where
  "slice s a b =
     (let len = int (length s);
          lo = (if a < 0 then max (len + a) 0 else min a len);
          hi = (if b < 0 then max (len + b) 0 else min b len)
      in take (nat (hi - lo)) (drop (nat lo) s))"

text \<open>\<open>String.prototype.charAt(i)\<close>: the empty string out of range.\<close>

definition charAt :: "string \<Rightarrow> int \<Rightarrow> string" where
  "charAt s i = (if 0 \<le> i \<and> i < int (length s) then [s ! nat i] else [])"

text \<open>\<open>String.prototype.indexOf(sep)\<close>: the index of the first occurrence of \<open>sep\<close>,
  or \<open>-1\<close>.\<close>

fun indexOf_at :: "string \<Rightarrow> int \<Rightarrow> string \<Rightarrow> int" where
  "indexOf_at sep i [] = (if sep = [] then i else - 1)"
| "indexOf_at sep i (c # cs) =
     (if prefix sep (c # cs) then i else indexOf_at sep (i + 1) cs)"

definition indexOf :: "string \<Rightarrow> string \<Rightarrow> int" where
  "indexOf s sep = indexOf_at sep 0 s"

text \<open>\<open>String.prototype.trim()\<close>: white space and line terminators among the code
  units below 256 are TAB, LF, VT, FF, CR, SPACE and NBSP.\<close>

definition is_ws :: "char \<Rightarrow> bool" where
  "is_ws c = (of_char c \<in> {9, 10, 11, 12, 13, 32, 160 :: nat})"

definition trim :: "string \<Rightarrow> string" where
  "trim s = rev (dropWhile is_ws (rev (dropWhile is_ws s)))"

section \<open>utilities.js\<close>

definition SOURCE_MESSAGE :: string where
  "SOURCE_MESSAGE = ''message''"

definition SOURCE_PLACEHOLDER :: string where
  "SOURCE_PLACEHOLDER = ''placeholder''"

text \<open>
  \<open>findClosingBracket(string, fromIndex)\<close>: the \<open>for\<close> loop with its two variables
  \<open>i\<close> and \<open>depth\<close>; \<open>fcb_loop s i depth\<close> is the loop entered at \<open>i\<close> with the counter
  at \<open>depth\<close>.
\<close>

function fcb_loop :: "string \<Rightarrow> int \<Rightarrow> int \<Rightarrow> int" where
  "fcb_loop s i depth =
     (if i < int (length s) then
        (if charAt s i = ''}'' then
           (if depth = 0 then i else fcb_loop s (i + 1) (depth - 1))
         else if charAt s i = ''{'' then fcb_loop s (i + 1) (depth + 1)
         else fcb_loop s (i + 1) depth)
      else - 1)"
  by pat_completeness auto
termination
  by (relation "measure (\<lambda>(s, i, depth). nat (int (length s) - i))") auto

declare fcb_loop.simps [simp del]

definition findClosingBracket :: "string \<Rightarrow> int \<Rightarrow> int" where
  "findClosingBracket s fromIndex = fcb_loop s (fromIndex + 1) 0"

lemma length_trim_le: "length (trim s) \<le> length s"
proof -
  have "length (dropWhile is_ws (rev (dropWhile is_ws s)))
          \<le> length (rev (dropWhile is_ws s))"
    by (rule length_dropWhile_le)
  then have "length (trim s) \<le> length (dropWhile is_ws s)"
    by (simp add: trim_def)
  also have "\<dots> \<le> length s"
    by (rule length_dropWhile_le)
  finally show ?thesis .
qed

lemma indexOf_at_ge: "indexOf_at sep i s = - 1 \<or> i \<le> indexOf_at sep i s"
proof (induction s arbitrary: i)
  case Nil
  show ?case by simp
next
  case (Cons c cs)
  from Cons [of "i + 1"] show ?case by auto
qed

lemma indexOf_ge: "indexOf s sep \<noteq> - 1 \<Longrightarrow> 0 \<le> indexOf s sep"
  using indexOf_at_ge [of sep 0 s] by (simp add: indexOf_def)

lemma length_substring_from:
  "0 \<le> a \<Longrightarrow> length (substring_from s a) = length s - nat a"
  by (auto simp: substring_from_def substring_def Let_def min_def max_def)

text \<open>
  \<open>split(string, separator, limit, accumulator = [])\<close>: the accumulator array is
  passed along and returned; \<open>push\<close> appends at its end.
\<close>

function split :: "string \<Rightarrow> string \<Rightarrow> int \<Rightarrow> string list \<Rightarrow> string list" where
  "split string separator limit accumulator =
     (if string = [] then accumulator
      else if limit = 1 then accumulator @ [string]
      else if indexOf string separator = - 1 then accumulator @ [string]
      else split
             (trim (substring_from string
                      (indexOf string separator + int (length separator) + 1)))
             separator (limit - 1)
             (accumulator @ [trim (substring string 0 (indexOf string separator))]))"
  by pat_completeness auto
termination
proof (relation "measure (\<lambda>(string, separator, limit, accumulator). length string)")
  show "wf (measure (\<lambda>(string, separator, limit, accumulator). length string))"
    by simp
next
  fix string separator :: string and limit :: int and accumulator :: "string list"
  assume ne: "string \<noteq> []" and found: "indexOf string separator \<noteq> - 1"
  let ?k = "indexOf string separator + int (length separator) + 1"
  have pos: "1 \<le> ?k" using indexOf_ge [OF found] by simp
  have "length (trim (substring_from string ?k)) \<le> length (substring_from string ?k)"
    by (rule length_trim_le)
  also have "\<dots> = length string - nat ?k"
    using pos by (simp add: length_substring_from)
  also have "\<dots> < length string"
    using pos ne by (cases string) auto
  finally show "((trim (substring_from string ?k), separator, limit - 1,
                  accumulator @ [trim (substring string 0 (indexOf string separator))]),
                 (string, separator, limit, accumulator))
                \<in> measure (\<lambda>(string, separator, limit, accumulator). length string)"
    by simp
qed

declare split.simps [simp del]

definition splitFormattedArgument :: "string \<Rightarrow> string list" where
  "splitFormattedArgument block = split (slice block 1 (- 1)) '','' 3 []"

section \<open>MessageFormatter.js\<close>

text \<open>
  JavaScript values as far as the formatter tells them apart: \<open>undefined\<close>, \<open>null\<close>,
  strings, arrays of result nodes (what \<open>process\<close> returns and \<open>extractValues\<close> flattens),
  any other primitive value (a number, a boolean), kept as \<open>JOther\<close>, and any other
  object (a function, a wrapper object), kept as \<open>JObject\<close>, each with the string that
  \<open>Array.prototype.join\<close> converts it to. A result node is the object literal built
  by \<open>decorateMessageString\<close> or \<open>decorateValue\<close>; a property that is absent or
  \<open>undefined\<close> reads as \<open>None\<close>.
\<close>

datatype jsval =
    JUndefined | JNull | JString string | JOther string | JObject string | JArray "node list"
  and node = Node (node_source: string) (node_key: "string option")
                  (node_type: "string option") (node_value: jsval)

text \<open>
  What a call can end with instead of a value: a thrown \<open>Error\<close> with its message, a
  \<open>TypeError\<close> thrown by the runtime (its message is the host's), or \<open>NoReturn\<close> when a handler re-enters the processor deeper than the bound given to
  \<open>process\<close> below.
\<close>

datatype exn = Error string | TypeError | NoReturn

text \<open>
  The \<open>values\<close> object and the \<open>typeHandlers\<close> object are plain objects, as their
  default \<open>{}\<close> is: a map of their own properties, \<open>Map.empty\<close> for \<open>{}\<close>; reading a
  property that is not their own goes on to \<open>Object.prototype\<close> (below). A type handler
  is called with the resolved value, the
  format part, the values, the locale and \<open>this.process.bind(this)\<close>.
\<close>

type_synonym value_map = "string \<Rightarrow> jsval option"

type_synonym callback = "string \<Rightarrow> value_map \<Rightarrow> string option \<Rightarrow> exn + node list"

type_synonym handler =
  "jsval \<Rightarrow> string option \<Rightarrow> value_map \<Rightarrow> string option \<Rightarrow> callback \<Rightarrow> exn + jsval"

definition decorateMessageString :: "string \<Rightarrow> node" where
  "decorateMessageString string = Node ''message'' None None (JString string)"

definition decorateValue :: "string option \<Rightarrow> string option \<Rightarrow> jsval \<Rightarrow> node" where
  "decorateValue key type val = Node ''value'' key type val"

text \<open>
  \<open>extractValues(array)\<close>: the \<open>reduce\<close> appends, from left to right, the flattened
  value of a node whose value is an array and the value itself otherwise.
\<close>

fun extractValues :: "node list \<Rightarrow> jsval list" where
  "extractValues [] = []"
| "extractValues (Node source key type (JArray val) # array) =
     extractValues val @ extractValues array"
| "extractValues (Node source key type val # array) = [val] @ extractValues array"

text \<open>
  \<open>Array.prototype.join('')\<close> turns \<open>undefined\<close> and \<open>null\<close> into the empty string and
  any other element into its string conversion.
\<close>

fun array_text :: "node list \<Rightarrow> string" where
  "array_text [] = []"
| "array_text [n] = ''[object Object]''"
| "array_text (n # ns) = ''[object Object],'' @ array_text ns"

fun join_item :: "jsval \<Rightarrow> string" where
  "join_item JUndefined = []"
| "join_item JNull = []"
| "join_item (JString s) = s"
| "join_item (JOther s) = s"
| "join_item (JObject s) = s"
| "join_item (JArray ns) = array_text ns"

text \<open>
  \<open>let [key, type, format] = splitFormattedArgument(block)\<close>: an element beyond the end
  of the array is \<open>undefined\<close>.
\<close>

definition element :: "'a list \<Rightarrow> nat \<Rightarrow> 'a option" where
  "element xs i = (if i < length xs then Some (xs ! i) else None)"

text \<open>
  \<open>Object.prototype\<close>, which a plain object inherits from. Its members are functions,
  but for the accessor \<open>__proto__\<close>, which reads as \<open>Object.prototype\<close> itself. The
  string conversion of a built-in function is the host's; the one used here is that of
  V8.
\<close>

definition object_prototype_members :: "string list" where
  "object_prototype_members =
     [''constructor'', ''toString'', ''toLocaleString'', ''valueOf'', ''hasOwnProperty'',
      ''isPrototypeOf'', ''propertyIsEnumerable'', ''__proto__'', ''__defineGetter__'',
      ''__defineSetter__'', ''__lookupGetter__'', ''__lookupSetter__'']"

definition native_function_text :: "string \<Rightarrow> string" where
  "native_function_text name = ''function '' @ name @ ''() { [native code] }''"

definition object_prototype_value :: "string \<Rightarrow> jsval option" where
  "object_prototype_value name =
     (if name = ''constructor'' then Some (JObject (native_function_text ''Object''))
      else if name = ''__proto__'' then Some (JObject ''[object Object]'')
      else if name \<in> set object_prototype_members then Some (JObject (native_function_text name))
      else None)"

text \<open>
  A member of \<open>Object.prototype\<close> called the way \<open>process\<close> calls a type handler: as a
  plain function in strict code, so with \<open>this\<close> undefined, and with the resolved value
  as first argument. \<open>Object(value)\<close> returns the value as an object; \<open>toString\<close>
  returns the tag of \<open>undefined\<close>; \<open>isPrototypeOf\<close> returns \<open>false\<close> for a primitive
  argument; everything else converts \<open>this\<close> to an object first, or is not a function,
  and throws a \<open>TypeError\<close>.
\<close>

definition object_prototype_handler :: "string \<Rightarrow> handler option" where
  "object_prototype_handler name =
     (if name = ''constructor'' then
        Some (\<lambda>body fmt vals locale self.
                Inr (case body of
                       JUndefined \<Rightarrow> JObject ''[object Object]''
                     | JNull \<Rightarrow> JObject ''[object Object]''
                     | JString s \<Rightarrow> JObject s
                     | JOther s \<Rightarrow> JObject s
                     | JObject s \<Rightarrow> JObject s
                     | JArray ns \<Rightarrow> JArray ns))
      else if name = ''toString'' then
        Some (\<lambda>body fmt vals locale self. Inr (JString ''[object Undefined]''))
      else if name = ''isPrototypeOf'' then
        Some (\<lambda>body fmt vals locale self.
                case body of
                  JObject s \<Rightarrow> Inl TypeError
                | JArray ns \<Rightarrow> Inl TypeError
                | _ \<Rightarrow> Inr (JOther ''false''))
      else if name \<in> set object_prototype_members then
        Some (\<lambda>body fmt vals locale self. Inl TypeError)
      else None)"

text \<open>
  \<open>values[key]\<close>: a key that is \<open>undefined\<close> reads the property named \<open>undefined\<close>; a
  property that is not the object's own is read from \<open>Object.prototype\<close>, and reads as
  \<open>undefined\<close> when it is not there either.
\<close>

definition property_name :: "string option \<Rightarrow> string" where
  "property_name key = (case key of None \<Rightarrow> ''undefined'' | Some k \<Rightarrow> k)"

definition get_value :: "value_map \<Rightarrow> string option \<Rightarrow> jsval" where
  "get_value vals key =
     (case vals (property_name key) of
        Some v \<Rightarrow> v
      | None \<Rightarrow>
          (case object_prototype_value (property_name key) of
             Some v \<Rightarrow> v
           | None \<Rightarrow> JUndefined))"

text \<open>
  \<open>type && this.typeHandlers[type]\<close>: falsy when the type is \<open>undefined\<close> or empty, or
  when the registry has no property of that name, its own or inherited. An own property
  is a handler function.
\<close>

definition lookup_handler :: "(string \<Rightarrow> handler option) \<Rightarrow> string option \<Rightarrow> handler option" where
  "lookup_handler typeHandlers type =
     (case type of
        None \<Rightarrow> None
      | Some t \<Rightarrow>
          if t = [] then None
          else (case typeHandlers t of
                  Some typeHandler \<Rightarrow> Some typeHandler
                | None \<Rightarrow> object_prototype_handler t))"

definition unbalanced_message :: "string \<Rightarrow> string" where
  "unbalanced_message message = ''Unbalanced curly braces in string: \"'' @ message @ ''\"''"

lemma fcb_loop_ge: "fcb_loop s i depth = - 1 \<or> i \<le> fcb_loop s i depth"
proof (induction s i depth rule: fcb_loop.induct)
  case (1 s i depth)
  have e: "fcb_loop s i depth =
     (if i < int (length s) then
        (if charAt s i = ''}'' then
           (if depth = 0 then i else fcb_loop s (i + 1) (depth - 1))
         else if charAt s i = ''{'' then fcb_loop s (i + 1) (depth + 1)
         else fcb_loop s (i + 1) depth)
      else - 1)"
    by (rule fcb_loop.simps)
  show ?case
    unfolding e using "1.IH" by (auto split: if_splits)
qed

lemma findClosingBracket_gt:
  "findClosingBracket s fromIndex \<noteq> - 1 \<Longrightarrow> fromIndex < findClosingBracket s fromIndex"
  using fcb_loop_ge [of s "fromIndex + 1" 0] by (simp add: findClosingBracket_def)

lemma tail_shorter:
  assumes "message \<noteq> []" and "indexOf message sep \<noteq> - 1"
    and "findClosingBracket message (indexOf message sep) \<noteq> - 1"
  shows "length (substring_from message (findClosingBracket message (indexOf message sep) + 1))
           < length message"
proof -
  from indexOf_ge [OF assms(2)] obtain i where i: "indexOf message sep = int i"
    using nonneg_int_cases by blast
  from assms(3) have "int i < findClosingBracket message (int i)"
    unfolding i by (rule findClosingBracket_gt)
  then have pos: "1 \<le> findClosingBracket message (indexOf message sep) + 1"
    unfolding i by simp
  then have "length (substring_from message (findClosingBracket message (indexOf message sep) + 1))
      = length message - nat (findClosingBracket message (indexOf message sep) + 1)"
    by (simp add: length_substring_from)
  also have "\<dots> < length message"
    using pos assms(1) by (cases message) auto
  finally show ?thesis .
qed

text \<open>
  \<open>process(message, values, locale)\<close>. The first argument \<open>self\<close> stands for
  \<open>this.process.bind(this)\<close>, the callback handed to the type handlers; the recursion on
  the tail is the function's own.
\<close>

function process_with ::
  "callback \<Rightarrow> (string \<Rightarrow> handler option) \<Rightarrow> string \<Rightarrow> value_map \<Rightarrow> string option
     \<Rightarrow> exn + node list" where
  "process_with self typeHandlers message vals locale =
     (if message = [] then Inr []
      else
        let blockStartIndex = indexOf message ''{'' in
        if blockStartIndex \<noteq> - 1 then
          let blockEndIndex = findClosingBracket message blockStartIndex in
          if blockEndIndex \<noteq> - 1 then
            let block = substring message blockStartIndex (blockEndIndex + 1) in
            if block \<noteq> [] then
              let head = substring message 0 blockStartIndex;
                  result = (if head \<noteq> [] then [decorateMessageString head] else []);
                  parts = splitFormattedArgument block;
                  key = element parts 0;
                  type = element parts 1;
                  format = element parts 2;
                  body = get_value vals key;
                  body = (if body = JNull \<or> body = JUndefined then JString [] else body)
              in case (case lookup_handler typeHandlers type of
                         Some typeHandler \<Rightarrow> typeHandler body format vals locale self
                       | None \<Rightarrow> Inr body) of
                   Inl thrown \<Rightarrow> Inl thrown
                 | Inr val \<Rightarrow>
                     let result = result @ [decorateValue key type val];
                         tail = substring_from message (blockEndIndex + 1)
                     in if tail \<noteq> [] then
                          (case process_with self typeHandlers tail vals locale of
                             Inl thrown \<Rightarrow> Inl thrown
                           | Inr nodes \<Rightarrow> Inr (result @ nodes))
                        else Inr result
            else Inr [decorateMessageString message]
          else Inl (Error (unbalanced_message message))
        else Inr [decorateMessageString message])"
  by pat_completeness auto
termination
  by (relation "measure (\<lambda>(self, typeHandlers, message, vals, locale). length message)")
     (auto intro: tail_shorter)

declare process_with.simps [simp del]

text \<open>
  The method itself: the callback is the method again. \<open>depth\<close> bounds how deep type
  handlers may re-enter the processor; below that bound the callback does not return.
\<close>

fun process ::
  "nat \<Rightarrow> (string \<Rightarrow> handler option) \<Rightarrow> string \<Rightarrow> value_map \<Rightarrow> string option
     \<Rightarrow> exn + node list" where
  "process 0 typeHandlers = process_with (\<lambda>message vals locale. Inl NoReturn) typeHandlers"
| "process (Suc depth) typeHandlers = process_with (process depth typeHandlers) typeHandlers"

text \<open>
  \<open>format(message, values, locale)\<close>; the memoization around it does not change the
  result.
\<close>

definition format ::
  "nat \<Rightarrow> (string \<Rightarrow> handler option) \<Rightarrow> string \<Rightarrow> value_map \<Rightarrow> string option \<Rightarrow> exn + string" where
  "format depth typeHandlers message vals locale =
     (case process depth typeHandlers message vals locale of
        Inl thrown \<Rightarrow> Inl thrown
      | Inr processResult \<Rightarrow> Inr (concat (map join_item (extractValues processResult))))"

section \<open>Specification\<close>

text \<open>
  Nesting of braces, counted: an opening brace counts 1, a closing brace -1. A string
  is balanced when the count of every prefix is at least 0 and the count of the whole is
  0. The closing brace at \<open>j\<close> matches the opening brace at \<open>i\<close> when the text strictly
  between them is balanced.
\<close>

definition brace_delta :: "char \<Rightarrow> int" where
  "brace_delta c = (if c = CHR ''{'' then 1 else if c = CHR ''}'' then - 1 else 0)"

definition net :: "string \<Rightarrow> int" where
  "net xs = sum_list (map brace_delta xs)"

definition balanced :: "string \<Rightarrow> bool" where
  "balanced xs = (net xs = 0 \<and> (\<forall>n \<le> length xs. 0 \<le> net (take n xs)))"

definition matching_close :: "string \<Rightarrow> nat \<Rightarrow> nat \<Rightarrow> bool" where
  "matching_close s i j =
     (i < j \<and> j < length s \<and> s ! j = CHR ''}'' \<and>
      balanced (take (j - i - 1) (drop (i + 1) s)))"












section \<open>Auxiliary definitions\<close>

text \<open>
  The scan of \<open>findClosingBracket\<close> as a recursion over the characters that follow:
  \<open>scan d xs\<close> is the offset in \<open>xs\<close> of the first closing brace met at depth 0, when the
  scan starts at depth \<open>d\<close>; \<open>closes_at\<close> says the same by counting.
\<close>

fun scan :: "int \<Rightarrow> string \<Rightarrow> nat option" where
  "scan d [] = None"
| "scan d (c # cs) =
     (if c = CHR ''}'' then (if d = 0 then Some 0 else map_option Suc (scan (d - 1) cs))
      else if c = CHR ''{'' then map_option Suc (scan (d + 1) cs)
      else map_option Suc (scan d cs))"

definition closes_at :: "int \<Rightarrow> string \<Rightarrow> nat \<Rightarrow> bool" where
  "closes_at d xs k =
     (k < length xs \<and> xs ! k = CHR ''}'' \<and> d + net (take k xs) = 0 \<and>
      (\<forall>n \<le> k. 0 \<le> d + net (take n xs)))"


text \<open>
  The parts of the body of \<open>process\<close>, named: the node pushed for a non-empty head, the
  three parts of a block, the value looked up for its key with \<open>null\<close> and \<open>undefined\<close>
  replaced by the empty string, and the value of the placeholder node.
\<close>

definition literal_nodes :: "string \<Rightarrow> node list" where
  "literal_nodes head = (if head \<noteq> [] then [decorateMessageString head] else [])"

definition block_key :: "string \<Rightarrow> string option" where
  "block_key block = element (splitFormattedArgument block) 0"

definition block_type :: "string \<Rightarrow> string option" where
  "block_type block = element (splitFormattedArgument block) 1"

definition block_format :: "string \<Rightarrow> string option" where
  "block_format block = element (splitFormattedArgument block) 2"

definition resolved_value :: "value_map \<Rightarrow> string \<Rightarrow> jsval" where
  "resolved_value vals block =
     (if get_value vals (block_key block) = JNull \<or> get_value vals (block_key block) = JUndefined
      then JString [] else get_value vals (block_key block))"

definition placeholder_result ::
  "callback \<Rightarrow> (string \<Rightarrow> handler option) \<Rightarrow> value_map \<Rightarrow> string option \<Rightarrow> string
     \<Rightarrow> exn + jsval" where
  "placeholder_result self typeHandlers vals locale block =
     (case lookup_handler typeHandlers (block_type block) of
        Some typeHandler \<Rightarrow>
          typeHandler (resolved_value vals block) (block_format block) vals locale self
      | None \<Rightarrow> Inr (resolved_value vals block))"

text \<open>The callback that \<open>process\<close> hands to the type handlers at a given depth.\<close>

fun self_callback :: "nat \<Rightarrow> (string \<Rightarrow> handler option) \<Rightarrow> callback" where
  "self_callback 0 typeHandlers = (\<lambda>message vals locale. Inl NoReturn)"
| "self_callback (Suc depth) typeHandlers = process depth typeHandlers"





section \<open>Matching braces\<close>

lemma net_Nil [simp]: "net [] = 0"
  by (simp add: net_def)

lemma net_Cons [simp]: "net (c # cs) = brace_delta c + net cs"
  by (simp add: net_def)


lemma closes_at_Nil [simp]: "\<not> closes_at d [] k"
  by (simp add: closes_at_def)

lemma closes_at_Cons_0: "closes_at d (c # cs) 0 = (c = CHR ''}'' \<and> d = 0)"
  by (auto simp: closes_at_def)

lemma closes_at_Cons_Suc:
  "closes_at d (c # cs) (Suc k) = (0 \<le> d \<and> closes_at (d + brace_delta c) cs k)"
proof -
  have "(\<forall>n \<le> Suc k. 0 \<le> d + net (take n (c # cs)))
          = (0 \<le> d \<and> (\<forall>m \<le> k. 0 \<le> d + brace_delta c + net (take m cs)))"
  proof
    assume a: "\<forall>n \<le> Suc k. 0 \<le> d + net (take n (c # cs))"
    from a [rule_format, of 0] have "0 \<le> d" by simp
    moreover have "\<forall>m \<le> k. 0 \<le> d + brace_delta c + net (take m cs)"
    proof (intro allI impI)
      fix m assume "m \<le> k"
      with a [rule_format, of "Suc m"] show "0 \<le> d + brace_delta c + net (take m cs)"
        by simp
    qed
    ultimately show "0 \<le> d \<and> (\<forall>m \<le> k. 0 \<le> d + brace_delta c + net (take m cs))" ..
  next
    assume b: "0 \<le> d \<and> (\<forall>m \<le> k. 0 \<le> d + brace_delta c + net (take m cs))"
    show "\<forall>n \<le> Suc k. 0 \<le> d + net (take n (c # cs))"
    proof (intro allI impI)
      fix n assume "n \<le> Suc k"
      with b show "0 \<le> d + net (take n (c # cs))"
        by (cases n) auto
    qed
  qed
  then show ?thesis
    by (auto simp: closes_at_def)
qed

lemma scan_closes_at: "0 \<le> d \<Longrightarrow> (scan d xs = Some k) = closes_at d xs k"
proof (induction xs arbitrary: d k)
  case Nil
  show ?case by simp
next
  case (Cons c cs)
  show ?case
  proof (cases k)
    case 0
    then show ?thesis by (auto simp: closes_at_Cons_0)
  next
    case (Suc k')
    show ?thesis
    proof (cases "c = CHR ''}''")
      case True
      show ?thesis
      proof (cases "d = 0")
        case True
        have "\<not> closes_at (- 1) cs k'"
          by (auto simp: closes_at_def)
        with True \<open>c = CHR ''}''\<close> Suc show ?thesis
          by (simp add: closes_at_Cons_Suc brace_delta_def)
      next
        case False
        with Cons.prems have "0 \<le> d - 1" by simp
        from Cons.IH [OF this, of k'] False \<open>c = CHR ''}''\<close> Suc Cons.prems show ?thesis
          by (auto simp: closes_at_Cons_Suc brace_delta_def)
      qed
    next
      case False
      show ?thesis
      proof (cases "c = CHR ''{''")
        case True
        from Cons.prems have "0 \<le> d + 1" by simp
        from Cons.IH [OF this, of k'] True Suc Cons.prems show ?thesis
          by (auto simp: closes_at_Cons_Suc brace_delta_def)
      next
        case nb: False
        from Cons.IH [OF Cons.prems, of k'] False nb Suc Cons.prems show ?thesis
          by (auto simp: closes_at_Cons_Suc brace_delta_def)
      qed
    qed
  qed
qed

lemma scan_None: "0 \<le> d \<Longrightarrow> (scan d xs = None) = (\<forall>k. \<not> closes_at d xs k)"
  using scan_closes_at [of d xs] by (cases "scan d xs") auto

lemma fcb_loop_scan:
  "0 \<le> i \<Longrightarrow>
   fcb_loop s i d = (case scan d (drop (nat i) s) of None \<Rightarrow> - 1 | Some k \<Rightarrow> i + int k)"
proof (induction s i d rule: fcb_loop.induct)
  case (1 s i depth)
  show ?case
  proof (cases "i < int (length s)")
    case False
    then show ?thesis by (subst fcb_loop.simps) simp
  next
    case True
    with "1.prems" have lt: "nat i < length s" by simp
    have dr: "drop (nat i) s = s ! nat i # drop (nat (i + 1)) s"
      using lt "1.prems" by (simp add: Cons_nth_drop_Suc nat_add_distrib)
    have ch: "charAt s i = [s ! nat i]"
      using True "1.prems" by (simp add: charAt_def)
    have nx: "0 \<le> i + 1" using "1.prems" by simp
    show ?thesis
    proof (cases "s ! nat i = CHR ''}''")
      case cl: True
      show ?thesis
      proof (cases "depth = 0")
        case True
        with cl ch \<open>i < int (length s)\<close> dr show ?thesis
          by (subst fcb_loop.simps) simp
      next
        case False
        from "1.IH"(1) [OF \<open>i < int (length s)\<close> _ False nx] cl ch
        have "fcb_loop s (i + 1) (depth - 1) =
               (case scan (depth - 1) (drop (nat (i + 1)) s) of None \<Rightarrow> - 1
                | Some k \<Rightarrow> i + 1 + int k)"
          by simp
        with cl ch False \<open>i < int (length s)\<close> dr show ?thesis
          by (subst fcb_loop.simps) (simp split: option.splits)
      qed
    next
      case ncl: False
      show ?thesis
      proof (cases "s ! nat i = CHR ''{''")
        case True
        from "1.IH"(2) [OF \<open>i < int (length s)\<close> _ _ nx] ncl True ch
        have "fcb_loop s (i + 1) (depth + 1) =
               (case scan (depth + 1) (drop (nat (i + 1)) s) of None \<Rightarrow> - 1
                | Some k \<Rightarrow> i + 1 + int k)"
          by simp
        with ncl True ch \<open>i < int (length s)\<close> dr show ?thesis
          by (subst fcb_loop.simps) (simp split: option.splits)
      next
        case False
        from "1.IH"(3) [OF \<open>i < int (length s)\<close> _ _ nx] ncl False ch
        have "fcb_loop s (i + 1) depth =
               (case scan depth (drop (nat (i + 1)) s) of None \<Rightarrow> - 1
                | Some k \<Rightarrow> i + 1 + int k)"
          by simp
        with ncl False ch \<open>i < int (length s)\<close> dr show ?thesis
          by (subst fcb_loop.simps) (simp split: option.splits)
      qed
    qed
  qed
qed

lemma closes_at_matching:
  "closes_at 0 (drop (i + 1) s) k = matching_close s i (i + 1 + k)"
proof -
  have "(\<forall>n \<le> k. 0 \<le> net (take n (drop (i + 1) s)))
          = (\<forall>n \<le> length (take k (drop (i + 1) s)). 0 \<le> net (take n (take k (drop (i + 1) s))))"
    if "k < length (drop (i + 1) s)"
    using that by (auto simp: min_def)
  then show ?thesis
    by (auto simp: closes_at_def matching_close_def balanced_def add.commute)
qed

text \<open>
  The loop is the structural scan, and the scan stops exactly at the first closing brace
  met at depth 0, that is, at the closing brace that matches.
\<close>

lemma findClosingBracket_scan:
  "findClosingBracket s (int i) =
     (case scan 0 (drop (i + 1) s) of None \<Rightarrow> - 1 | Some k \<Rightarrow> int (i + 1 + k))"
proof -
  have "nat (int i + 1) = i + 1" by simp
  then show ?thesis
    unfolding findClosingBracket_def
    by (subst fcb_loop_scan) (simp_all split: option.splits)
qed

lemma matching_close_scan:
  "matching_close s i j = (i < j \<and> scan 0 (drop (i + 1) s) = Some (j - i - 1))"
proof (cases "i < j")
  case False
  then show ?thesis by (simp add: matching_close_def)
next
  case True
  then have e: "i + 1 + (j - i - 1) = j" by simp
  have "matching_close s i j = closes_at 0 (drop (i + 1) s) (j - i - 1)"
    using closes_at_matching [of i s "j - i - 1"] unfolding e by simp
  also have "\<dots> = (scan 0 (drop (i + 1) s) = Some (j - i - 1))"
    by (simp add: scan_closes_at)
  finally show ?thesis using True by simp
qed

text \<open>
  C4. \<open>findClosingBracket\<close>, called with the index \<open>i\<close> of an opening brace, keeps a
  counter that starts at 0, goes up on an opening brace and down on a closing brace met
  at a positive count, and returns the index of the closing brace met at count 0. So it
  returns \<open>j\<close> exactly when \<open>j\<close> is the matching closing brace: \<open>j\<close> is behind \<open>i\<close>, holds
  a closing brace, and the text strictly between \<open>i\<close> and \<open>j\<close> is a balanced sequence of
  nested brace pairs. It returns \<open>-1\<close> exactly when the string ends before any such \<open>j\<close>.
  Any other result is impossible.
\<close>

theorem findClosingBracket_matching:
  "((findClosingBracket s (int i) = int j) = matching_close s i j) \<and>
   ((findClosingBracket s (int i) = - 1) = (\<forall>j. \<not> matching_close s i j)) \<and>
   (findClosingBracket s (int i) = - 1 \<or>
    (int i < findClosingBracket s (int i) \<and> findClosingBracket s (int i) < int (length s)))"
proof (cases "scan 0 (drop (i + 1) s)")
  case None
  then have r: "findClosingBracket s (int i) = - 1"
    by (simp add: findClosingBracket_scan)
  have no: "\<not> matching_close s i j'" for j'
    using None by (simp add: matching_close_scan)
  show ?thesis
    unfolding r using no by simp
next
  case (Some k)
  then have r: "findClosingBracket s (int i) = int (i + 1 + k)"
    by (simp add: findClosingBracket_scan)
  have m: "matching_close s i j' = (j' = i + 1 + k)" for j'
    unfolding matching_close_scan Some by auto
  have "matching_close s i (i + 1 + k)"
    unfolding m ..
  then have lt: "i + 1 + k < length s"
    unfolding matching_close_def by blast
  have c1: "(int (i + 1 + k) = int j) = matching_close s i j"
    unfolding m by auto
  have c2: "(int (i + 1 + k) = - 1) = (\<forall>j. \<not> matching_close s i j)"
    unfolding m by auto
  have c3: "int i < int (i + 1 + k) \<and> int (i + 1 + k) < int (length s)"
    using lt by simp
  show ?thesis
    unfolding r using c1 c2 c3 by blast
qed

theorem findClosingBracket_matching_witness:
  "findClosingBracket ''a{b{c}d}e}'' (int 1) = int 7 \<and> matching_close ''a{b{c}d}e}'' 1 7 \<and>
   findClosingBracket ''a{b{c}d'' (int 1) = - 1 \<and> (\<forall>j. \<not> matching_close ''a{b{c}d'' 1 j)"
proof -
  have a: "findClosingBracket ''a{b{c}d}e}'' (int 1) = int 7" by code_simp
  have b: "findClosingBracket ''a{b{c}d'' (int 1) = - 1" by code_simp
  from a findClosingBracket_matching [of "''a{b{c}d}e}''" 1 7]
  have c: "matching_close ''a{b{c}d}e}'' 1 7" by blast
  from b findClosingBracket_matching [of "''a{b{c}d''" 1]
  have d: "\<forall>j. \<not> matching_close ''a{b{c}d'' 1 j" by blast
  from a b c d show ?thesis by blast
qed

section \<open>The processor on a message cut at its first block\<close>

lemma indexOf_at_absent: "c \<notin> set s \<Longrightarrow> indexOf_at [c] i s = - 1"
  by (induction s arbitrary: i) auto

lemma indexOf_at_first:
  "c \<notin> set pre \<Longrightarrow> indexOf_at [c] i (pre @ c # rest) = i + int (length pre)"
  by (induction pre arbitrary: i) auto

lemma indexOf_absent: "c \<notin> set s \<Longrightarrow> indexOf s [c] = - 1"
  by (simp add: indexOf_def indexOf_at_absent)

lemma indexOf_first: "c \<notin> set pre \<Longrightarrow> indexOf (pre @ c # rest) [c] = int (length pre)"
  by (simp add: indexOf_def indexOf_at_first)

lemma findClosingBracket_after:
  "findClosingBracket (pre @ c # rest) (int (length pre)) =
     (case scan 0 rest of None \<Rightarrow> - 1 | Some k \<Rightarrow> int (length pre + 1 + k))"
  by (simp add: findClosingBracket_scan)

lemma balanced_closes_at:
  "balanced inner \<Longrightarrow> closes_at 0 (inner @ CHR ''}'' # post) (length inner)"
  by (auto simp: balanced_def closes_at_def nth_append)

lemma scan_balanced: "balanced inner \<Longrightarrow> scan 0 (inner @ CHR ''}'' # post) = Some (length inner)"
  using scan_closes_at [of 0 "inner @ CHR ''}'' # post" "length inner"] balanced_closes_at
  by simp

lemma scan_Some_decompose:
  assumes "scan 0 rest = Some k"
  shows "\<exists>inner post. rest = inner @ CHR ''}'' # post \<and> length inner = k \<and> balanced inner"
proof -
  from assms have c: "closes_at 0 rest k"
    by (simp add: scan_closes_at)
  then have k: "k < length rest" and ch: "rest ! k = CHR ''}''"
    by (simp_all add: closes_at_def)
  have "rest = take k rest @ rest ! k # drop (Suc k) rest"
    using k by (simp add: id_take_nth_drop [symmetric])
  moreover have "balanced (take k rest)"
    using c k by (auto simp: closes_at_def balanced_def min_def)
  moreover have "length (take k rest) = k"
    using k by simp
  ultimately show ?thesis
    using ch by metis
qed

lemma substring_block:
  "substring (pre @ c # inner @ d # post) (int (length pre))
     (int (length pre + 1 + length inner) + 1) = c # inner @ [d]"
proof -
  have n: "nat (2 + int (length inner)) = Suc (Suc (length inner))"
    by simp
  show ?thesis
    by (simp add: substring_def Let_def min_def max_def n)
qed

lemma substring_head:
  "substring (pre @ rest) 0 (int (length pre)) = pre"
  by (simp add: substring_def Let_def min_def max_def)

lemma substring_tail:
  "substring_from (pre @ c # inner @ d # post) (int (length pre + 1 + length inner) + 1) = post"
  by (simp add: substring_from_def substring_def Let_def min_def max_def nat_add_distrib)

lemma process_with_Nil: "process_with self typeHandlers [] vals locale = Inr []"
  by (subst process_with.simps) simp

lemma process_literal:
  "CHR ''{'' \<notin> set message \<Longrightarrow>
   process_with self typeHandlers message vals locale = Inr (literal_nodes message)"
  by (subst process_with.simps) (simp add: indexOf_absent literal_nodes_def)

lemma process_unmatched:
  assumes "CHR ''{'' \<notin> set pre" and "scan 0 rest = None"
  shows "process_with self typeHandlers (pre @ CHR ''{'' # rest) vals locale
           = Inl (Error (unbalanced_message (pre @ CHR ''{'' # rest)))"
  using assms
  by (subst process_with.simps) (simp add: indexOf_first findClosingBracket_after)

lemma process_block:
  assumes pre: "CHR ''{'' \<notin> set pre" and inner: "balanced inner"
  shows "process_with self typeHandlers (pre @ CHR ''{'' # inner @ CHR ''}'' # post) vals locale =
     (case placeholder_result self typeHandlers vals locale (CHR ''{'' # inner @ ''}'') of
        Inl thrown \<Rightarrow> Inl thrown
      | Inr val \<Rightarrow>
          (case process_with self typeHandlers post vals locale of
             Inl thrown \<Rightarrow> Inl thrown
           | Inr nodes \<Rightarrow>
               Inr (literal_nodes pre
                    @ [decorateValue (block_key (CHR ''{'' # inner @ ''}''))
                         (block_type (CHR ''{'' # inner @ ''}'')) val]
                    @ nodes)))"
proof -
  let ?m = "pre @ CHR ''{'' # inner @ CHR ''}'' # post"
  have s: "indexOf ?m ''{'' = int (length pre)"
    using pre by (simp add: indexOf_first)
  have e: "findClosingBracket ?m (int (length pre)) = int (length pre + 1 + length inner)"
    using inner by (simp add: findClosingBracket_after scan_balanced)
  have b: "substring ?m (int (length pre)) (int (length pre + 1 + length inner) + 1)
             = CHR ''{'' # inner @ ''}''"
    by (rule substring_block)
  have h: "substring ?m 0 (int (length pre)) = pre"
    by (rule substring_head)
  have t: "substring_from ?m (int (length pre + 1 + length inner) + 1) = post"
    by (rule substring_tail)
  show ?thesis
    apply (subst process_with.simps)
    apply (simp only: s e b h t Let_def)
    apply (simp add: placeholder_result_def resolved_value_def block_key_def block_type_def
        block_format_def literal_nodes_def process_with_Nil
        split: option.splits sum.splits)
    done
qed

lemma message_cases:
  obtains (literal) "CHR ''{'' \<notin> set message"
  | (unmatched) pre rest where "message = pre @ CHR ''{'' # rest" "CHR ''{'' \<notin> set pre"
      "scan 0 rest = None"
  | (block) pre inner post where "message = pre @ CHR ''{'' # inner @ CHR ''}'' # post"
      "CHR ''{'' \<notin> set pre" "balanced inner"
proof (cases "CHR ''{'' \<in> set message")
  case False
  then show ?thesis by (rule literal)
next
  case True
  then obtain pre rest where m: "message = pre @ CHR ''{'' # rest" and p: "CHR ''{'' \<notin> set pre"
    by (meson split_list_first)
  show ?thesis
  proof (cases "scan 0 rest")
    case None
    with m p show ?thesis by (rule unmatched)
  next
    case (Some k)
    from scan_Some_decompose [OF this] obtain inner post
      where "rest = inner @ CHR ''}'' # post" "balanced inner" by blast
    with m p show ?thesis by (auto intro: block)
  qed
qed

lemma message_induct [case_names literal unmatched block]:
  assumes "\<And>message. CHR ''{'' \<notin> set message \<Longrightarrow> P message"
    and "\<And>pre rest. CHR ''{'' \<notin> set pre \<Longrightarrow> scan 0 rest = None \<Longrightarrow> P (pre @ CHR ''{'' # rest)"
    and "\<And>pre inner post. CHR ''{'' \<notin> set pre \<Longrightarrow> balanced inner \<Longrightarrow> P post
           \<Longrightarrow> P (pre @ CHR ''{'' # inner @ CHR ''}'' # post)"
  shows "P message"
proof (induction message rule: length_induct)
  case (1 message)
  show ?case
  proof (cases message rule: message_cases)
    case literal
    then show ?thesis by (rule assms(1))
  next
    case (unmatched pre rest)
    then show ?thesis using assms(2) by simp
  next
    case (block pre inner post)
    have "length post < length message"
      using block(1) by simp
    with 1 have "P post" by blast
    with block show ?thesis using assms(3) by simp
  qed
qed

lemmas split_eval = split.simps indexOf_def substring_def substring_from_def trim_def
  is_ws_def splitFormattedArgument_def slice_def Let_def

text \<open>
  C2. The Argument Splitter is claimed to continue on the remainder that immediately
  follows the delimiter, so that \<open>a,b\<close> split on a comma with limit 3 gives the parts
  \<open>a\<close> and \<open>b\<close>. The code starts the remainder one character further
  (\<open>indexOfDelimiter + separator.length + 1\<close>): on \<open>a,b\<close> the character \<open>b\<close> is skipped,
  the remainder is empty and the result is the single part \<open>a\<close>.
\<close>

theorem split_skips_character_after_delimiter:
  "split ''a,b'' '','' 3 [] = [''a''] \<and>
   splitFormattedArgument ''{a,b}'' = [''a''] \<and>
   splitFormattedArgument ''{k,type,fmt}'' = [''k'', ''ype'', ''mt'']"
  by (simp add: split_eval)

text \<open>
  C3. Every part is claimed to be trimmed, so that the block \<open>{ key }\<close> gives the part
  \<open>key\<close>. The code trims only the pieces cut at a delimiter; a string without delimiter
  is pushed as it is, and the block \<open>{ key }\<close> gives the part \<open>key\<close> with its two spaces.
\<close>

theorem split_single_part_not_trimmed:
  "splitFormattedArgument ''{ key }'' = ['' key ''] \<and> trim '' key '' = ''key''"
  by (simp add: split_eval)

text \<open>
  C9. For the block \<open>{k, type, {nested} text}\<close> the Argument Splitter gives exactly three
  parts, and the third one is \<open>{nested} text\<close>, neither split nor cut at the inner brace.
\<close>

theorem split_nested_block_integrity:
  "splitFormattedArgument ''{k, type, {nested} text}'' = [''k'', ''type'', ''{nested} text'']"
  by (simp add: split_eval)

section \<open>Properties of the processor\<close>

lemma process_self: "process depth typeHandlers = process_with (self_callback depth typeHandlers) typeHandlers"
  by (cases depth) simp_all




lemma join_literal_nodes:
  "concat (map join_item (extractValues (literal_nodes m))) = m"
  by (simp add: literal_nodes_def decorateMessageString_def)

text \<open>
  C8. For every message with no placeholder block (no opening brace), \<open>format\<close> returns
  the message unchanged; this holds for the empty values map of the claim and for any
  other, for every handler registry, locale and re-entry depth.
\<close>

theorem format_without_placeholder:
  "CHR ''{'' \<notin> set m \<Longrightarrow> format depth typeHandlers m vals locale = Inr m"
  by (simp add: format_def process_self process_literal join_literal_nodes)

theorem format_without_placeholder_witness:
  "CHR ''{'' \<notin> set ''Hello, world } !'' \<and>
   format 0 Map.empty ''Hello, world } !'' Map.empty None = Inr ''Hello, world } !''"
  using format_without_placeholder [of "''Hello, world } !''" 0 Map.empty Map.empty None]
  by simp

lemma process_with_sources:
  "process_with self typeHandlers message vals locale = Inr nodes \<Longrightarrow> n \<in> set nodes \<Longrightarrow>
   node_source n = ''message'' \<or> node_source n = ''value''"
proof (induction message arbitrary: nodes rule: message_induct)
  case (literal message)
  then show ?case
    by (auto simp: process_literal literal_nodes_def decorateMessageString_def split: if_splits)
next
  case (unmatched pre rest)
  then show ?case by (simp add: process_unmatched)
next
  case (block pre inner post)
  from block.prems(1) block.hyps obtain val rest where
    rest: "process_with self typeHandlers post vals locale = Inr rest"
    and nodes: "nodes = literal_nodes pre
        @ [decorateValue (block_key (CHR ''{'' # inner @ ''}''))
             (block_type (CHR ''{'' # inner @ ''}'')) val] @ rest"
    by (auto simp: process_block split: sum.splits)
  from block.prems(2) nodes consider "n \<in> set (literal_nodes pre)"
    | "n = decorateValue (block_key (CHR ''{'' # inner @ ''}''))
             (block_type (CHR ''{'' # inner @ ''}'')) val"
    | "n \<in> set rest" by auto
  then show ?case
  proof cases
    case 1
    then show ?thesis
      by (auto simp: literal_nodes_def decorateMessageString_def split: if_splits)
  next
    case 2
    then show ?thesis by (simp add: decorateValue_def)
  next
    case 3
    with block.IH rest show ?thesis by blast
  qed
qed

text \<open>
  C10. Every node of the sequence returned by \<open>process\<close>, the nodes of the tail included,
  has the source \<open>message\<close> or the source \<open>value\<close>; no node has the source
  \<open>SOURCE_PLACEHOLDER\<close>, which is the string \<open>placeholder\<close>.
\<close>

theorem process_node_sources:
  assumes "process depth typeHandlers message vals locale = Inr nodes" and "n \<in> set nodes"
  shows "(node_source n = SOURCE_MESSAGE \<or> node_source n = ''value'') \<and>
         node_source n \<noteq> SOURCE_PLACEHOLDER"
proof -
  from assms have "node_source n = ''message'' \<or> node_source n = ''value''"
    unfolding process_self by (rule process_with_sources)
  then show ?thesis
    by (auto simp: SOURCE_MESSAGE_def SOURCE_PLACEHOLDER_def)
qed

lemmas prototype_eval = object_prototype_members_def native_function_text_def
  object_prototype_value_def object_prototype_handler_def

lemmas fmt_eval = prototype_eval process_with.simps findClosingBracket_def fcb_loop.simps charAt_def
  decorateMessageString_def decorateValue_def element_def property_name_def get_value_def
  lookup_handler_def unbalanced_message_def format_def split_eval

theorem process_node_sources_witness:
  "process 0 Map.empty ''Hello {name}!'' [''name'' \<mapsto> JString ''World''] None
     = Inr [Node ''message'' None None (JString ''Hello ''),
            Node ''value'' (Some ''name'') None (JString ''World''),
            Node ''message'' None None (JString ''!'')] \<and>
   node_source (Node ''value'' (Some ''name'') None (JString ''World'')) = ''value'' \<and>
   node_source (Node ''value'' (Some ''name'') None (JString ''World'')) \<noteq> SOURCE_PLACEHOLDER \<and>
   node_source (Node ''message'' None None (JString ''!'')) = SOURCE_MESSAGE \<and>
   node_source (Node ''message'' None None (JString ''!'')) \<noteq> SOURCE_PLACEHOLDER"
proof -
  have p: "process 0 Map.empty ''Hello {name}!'' [''name'' \<mapsto> JString ''World''] None
     = Inr [Node ''message'' None None (JString ''Hello ''),
            Node ''value'' (Some ''name'') None (JString ''World''),
            Node ''message'' None None (JString ''!'')]"
    by (simp add: fmt_eval)
  have "Node ''value'' (Some ''name'') None (JString ''World'')
          \<in> set [Node ''message'' None None (JString ''Hello ''),
            Node ''value'' (Some ''name'') None (JString ''World''),
            Node ''message'' None None (JString ''!'')]"
    by simp
  from process_node_sources [OF p this]
  have v: "node_source (Node ''value'' (Some ''name'') None (JString ''World''))
             \<noteq> SOURCE_PLACEHOLDER"
    by blast
  have "Node ''message'' None None (JString ''!'')
          \<in> set [Node ''message'' None None (JString ''Hello ''),
            Node ''value'' (Some ''name'') None (JString ''World''),
            Node ''message'' None None (JString ''!'')]"
    by simp
  from process_node_sources [OF p this]
  have m: "node_source (Node ''message'' None None (JString ''!'')) \<noteq> SOURCE_PLACEHOLDER"
    by blast
  from p v m show ?thesis
    by (simp add: SOURCE_MESSAGE_def)
qed

section \<open>Placeholder blocks\<close>
































section \<open>The substituted message\<close>
















end
